theory Spec2Isabelle
  imports Main
begin

text \<open>
  The offline queue of the messaging client: \<^verbatim>\<open>OfflineStorage\<close> (the pending store in
  AsyncStorage and its sync pass), \<^verbatim>\<open>MessageQueue\<close> (the in-memory queue and its sync
  pass), \<^verbatim>\<open>withRetry\<close> and \<^verbatim>\<open>EncryptionService\<close>. Asynchronous functions are modelled
  as functions on an explicit world; a rejected promise is the left summand of the
  result.
\<close>

section \<open>Data model\<close>

text \<open>
  The \<^verbatim>\<open>Message\<close> interface of \<^verbatim>\<open>types/Message\<close>. The identifier field is
  called \<open>msg_id\<close> here (\<open>id\<close> is the identity function of HOL). The timestamp is the
  numeric epoch value (\<^verbatim>\<open>Date.now()\<close>), as in the repository's tests.
\<close>

record Message =
  msg_id :: string
  sender :: string
  recipient :: string
  content :: string
  timestamp :: int
  status :: "string option"

text \<open>The \<^verbatim>\<open>QueuedMessage\<close> interface of the \<^verbatim>\<open>MessageQueue\<close> module.\<close>

record QueuedMessage =
  q_id :: string
  q_recipient :: string
  q_content :: string
  q_timestamp :: int

text \<open>Everything the modelled code throws or rejects with.\<close>

datatype error =
    StorageError
  | SyntaxError
  | SubmissionError
  | ReferenceError string
  | InvalidKey
  | OperationTimeoutError string int
  | OperationError string
  | Undefined
  | TypeError

section \<open>AsyncStorage\<close>

text \<open>
  A JSON value that is not an array: \<^verbatim>\<open>null\<close>, an object, a number, a string or a
  boolean. What an object holds plays no role below.
\<close>

datatype non_array = Null | Object | Number int | Text string | Boolean bool

text \<open>
  What \<^verbatim>\<open>JSON.parse\<close> returns: an array, whose elements are taken to be message objects,
  or a value that is not an array.
\<close>

datatype parsed = Array "Message list" | Non_array non_array

fun is_array :: "parsed \<Rightarrow> bool" where
  "is_array (Array ms) = True"
| "is_array (Non_array v) = False"

text \<open>
  The text stored under the key \<^verbatim>\<open>'pendingMessages'\<close>: the JSON text of a message array
  (what the class itself writes), the JSON text of a value that is not an array, the
  empty string, or text that \<^verbatim>\<open>JSON.parse\<close> rejects.
\<close>

datatype stored_text = Json "Message list" | Json_other non_array | Empty_text | Garbage

definition JSON_stringify :: "Message list \<Rightarrow> stored_text" where
  "JSON_stringify ms = Json ms"

fun JSON_parse :: "stored_text \<Rightarrow> error + parsed" where
  "JSON_parse (Json ms) = Inr (Array ms)"
| "JSON_parse (Json_other v) = Inr (Non_array v)"
| "JSON_parse Empty_text = Inl SyntaxError"
| "JSON_parse Garbage = Inl SyntaxError"

text \<open>
  The world the services run in. \<open>pendingMessages\<close>, \<open>lastSync\<close> and \<open>messageQueue\<close>
  are the three AsyncStorage keys the code uses (\<open>None\<close> is an absent key).
  \<open>io_faults\<close> is the outcome of the coming AsyncStorage calls, one entry per call,
  \<open>True\<close> for a call that rejects; an exhausted schedule means success.
  \<open>console\<close> collects the \<^verbatim>\<open>console.error\<close> lines. \<open>submitted\<close> and \<open>accepted\<close>
  are the Ledger's view of \<^verbatim>\<open>OfflineStorage\<close>: every submission it received, and the
  ones it acknowledged; \<open>refuses\<close> tells which submissions it throws on.
  \<open>q_submitted\<close>, \<open>q_accepted\<close> and \<open>q_refuses\<close> are the same for the submissions of
  \<^verbatim>\<open>MessageQueue\<close>, and \<open>isConnected\<close> is what \<^verbatim>\<open>NetInfo.fetch()\<close> reports.
  \<open>text_submitted\<close> and \<open>text_refuses\<close> are the Ledger's view of the submissions of
  \<^verbatim>\<open>OfflineStorage\<close> whose argument is a character of a stored string instead of a
  message object.
\<close>

record world =
  pendingMessages :: "stored_text option"
  lastSync :: "int option"
  messageQueue :: "QueuedMessage list option"
  io_faults :: "bool list"
  console :: "string list"
  online :: bool
  now :: int
  submitted :: "Message list"
  accepted :: "Message list"
  refuses :: "Message \<Rightarrow> bool"
  isConnected :: bool
  q_submitted :: "QueuedMessage list"
  q_accepted :: "QueuedMessage list"
  q_refuses :: "QueuedMessage \<Rightarrow> bool"
  text_submitted :: "string list"
  text_refuses :: "string \<Rightarrow> bool"

definition console_error :: "string \<Rightarrow> world \<Rightarrow> world" where
  "console_error line w = w\<lparr>console := console w @ [line]\<rparr>"

text \<open>One AsyncStorage call: takes the next entry of the fault schedule.\<close>

definition io_call :: "world \<Rightarrow> bool \<times> world" where
  "io_call w =
     (case io_faults w of
        [] \<Rightarrow> (False, w)
      | f # fs \<Rightarrow> (f, w\<lparr>io_faults := fs\<rparr>))"

definition getItem_pendingMessages :: "world \<Rightarrow> (error + stored_text option) \<times> world" where
  "getItem_pendingMessages w =
     (case io_call w of
        (True, w1) \<Rightarrow> (Inl StorageError, w1)
      | (False, w1) \<Rightarrow> (Inr (pendingMessages w1), w1))"

definition setItem_pendingMessages :: "stored_text \<Rightarrow> world \<Rightarrow> (error + unit) \<times> world" where
  "setItem_pendingMessages t w =
     (case io_call w of
        (True, w1) \<Rightarrow> (Inl StorageError, w1)
      | (False, w1) \<Rightarrow> (Inr (), w1\<lparr>pendingMessages := Some t\<rparr>))"

definition setItem_lastSync :: "int \<Rightarrow> world \<Rightarrow> (error + unit) \<times> world" where
  "setItem_lastSync t w =
     (case io_call w of
        (True, w1) \<Rightarrow> (Inl StorageError, w1)
      | (False, w1) \<Rightarrow> (Inr (), w1\<lparr>lastSync := Some t\<rparr>))"

definition setItem_messageQueue :: "QueuedMessage list \<Rightarrow> world \<Rightarrow> (error + unit) \<times> world" where
  "setItem_messageQueue q w =
     (case io_call w of
        (True, w1) \<Rightarrow> (Inl StorageError, w1)
      | (False, w1) \<Rightarrow> (Inr (), w1\<lparr>messageQueue := Some q\<rparr>))"

section \<open>OfflineStorage\<close>

text \<open>
  \<^verbatim>\<open>getPendingMessages\<close>: the \<^verbatim>\<open>try\<close> covers both the read and \<^verbatim>\<open>JSON.parse\<close>; the
  \<^verbatim>\<open>catch\<close> logs and returns the empty array. A falsy item (absent key, empty string)
  gives the empty array without parsing. What \<^verbatim>\<open>JSON.parse\<close> returns is returned as it
  is, array or not.
\<close>

definition getPendingMessages :: "world \<Rightarrow> (error + parsed) \<times> world" where
  "getPendingMessages w =
     (case getItem_pendingMessages w of
        (Inl e, w1) \<Rightarrow> (Inr (Array []), console_error ''Error getting pending messages:'' w1)
      | (Inr None, w1) \<Rightarrow> (Inr (Array []), w1)
      | (Inr (Some Empty_text), w1) \<Rightarrow> (Inr (Array []), w1)
      | (Inr (Some t), w1) \<Rightarrow>
          (case JSON_parse t of
             Inl e \<Rightarrow> (Inr (Array []), console_error ''Error getting pending messages:'' w1)
           | Inr v \<Rightarrow> (Inr v, w1)))"

text \<open>
  \<^verbatim>\<open>storeMessage\<close>: read the pending array, push the message, write the array back;
  the \<^verbatim>\<open>catch\<close> logs and rethrows. On a value that is not an array, \<^verbatim>\<open>push\<close> is no
  function and the call throws a TypeError inside the \<^verbatim>\<open>try\<close>.
\<close>

definition storeMessage :: "Message \<Rightarrow> world \<Rightarrow> (error + unit) \<times> world" where
  "storeMessage message w =
     (case getPendingMessages w of
        (Inl e, w1) \<Rightarrow> (Inl e, console_error ''Error storing offline message:'' w1)
      | (Inr (Non_array v), w1) \<Rightarrow>
          (Inl TypeError, console_error ''Error storing offline message:'' w1)
      | (Inr (Array pending), w1) \<Rightarrow>
          (case setItem_pendingMessages (JSON_stringify (pending @ [message])) w1 of
             (Inl e, w2) \<Rightarrow> (Inl e, console_error ''Error storing offline message:'' w2)
           | (Inr u, w2) \<Rightarrow> (Inr (), w2)))"

text \<open>
  \<^verbatim>\<open>removePendingMessage\<close>: no handler of its own, a rejected write propagates, and so
  does the TypeError of \<^verbatim>\<open>filter\<close> on a value that is not an array. \<open>messageId\<close> is
  \<open>None\<close> when the caller passes \<^verbatim>\<open>undefined\<close>, which differs from the \<^verbatim>\<open>id\<close> of every
  message.
\<close>

definition removePendingMessage :: "string option \<Rightarrow> world \<Rightarrow> (error + unit) \<times> world" where
  "removePendingMessage messageId w =
     (case getPendingMessages w of
        (Inl e, w1) \<Rightarrow> (Inl e, w1)
      | (Inr (Non_array v), w1) \<Rightarrow> (Inl TypeError, w1)
      | (Inr (Array messages), w1) \<Rightarrow>
          setItem_pendingMessages
            (JSON_stringify (filter (\<lambda>m. Some (msg_id m) \<noteq> messageId) messages)) w1)"

text \<open>
  Modelled from the spec: the Ledger capability \<^verbatim>\<open>submit(recipient, ciphertext) ->
  confirmation | throws\<close>. The body of \<^verbatim>\<open>sendMessageToContract\<close> in the source is a
  placeholder comment; the call is modelled as one submission to the Ledger, which
  records it and either acknowledges it or throws.
\<close>

definition sendMessageToContract :: "Message \<Rightarrow> world \<Rightarrow> (error + unit) \<times> world" where
  "sendMessageToContract message w =
     (let w1 = w\<lparr>submitted := submitted w @ [message]\<rparr>
      in if refuses w message then (Inl SubmissionError, w1)
         else (Inr (), w1\<lparr>accepted := accepted w1 @ [message]\<rparr>))"

text \<open>
  The \<^verbatim>\<open>for ... of\<close> loop of \<^verbatim>\<open>syncMessages\<close> over the array read at the start of the
  pass. The \<^verbatim>\<open>try\<close> covers the submission and the removal; the \<^verbatim>\<open>catch\<close> logs and
  the loop goes on with the next message.
\<close>

fun sync_loop :: "Message list \<Rightarrow> world \<Rightarrow> world" where
  "sync_loop [] w = w"
| "sync_loop (message # rest) w =
     (case sendMessageToContract message w of
        (Inl e, w1) \<Rightarrow> sync_loop rest (console_error ''Error syncing message:'' w1)
      | (Inr u, w1) \<Rightarrow>
          (case removePendingMessage (Some (msg_id message)) w1 of
             (Inl e, w2) \<Rightarrow> sync_loop rest (console_error ''Error syncing message:'' w2)
           | (Inr u', w2) \<Rightarrow> sync_loop rest w2))"

text \<open>
  Modelled from the spec: the same Ledger capability, called with a character of a
  stored string in the place of the message object.
\<close>

definition sendTextToContract :: "string \<Rightarrow> world \<Rightarrow> (error + unit) \<times> world" where
  "sendTextToContract message w =
     (let w1 = w\<lparr>text_submitted := text_submitted w @ [message]\<rparr>
      in if text_refuses w message then (Inl SubmissionError, w1) else (Inr (), w1))"

text \<open>
  The same loop when the value read is a string: \<^verbatim>\<open>for ... of\<close> goes through its
  characters, and \<^verbatim>\<open>message.id\<close> of a character is \<^verbatim>\<open>undefined\<close>.
\<close>

fun sync_text_loop :: "string list \<Rightarrow> world \<Rightarrow> world" where
  "sync_text_loop [] w = w"
| "sync_text_loop (message # rest) w =
     (case sendTextToContract message w of
        (Inl e, w1) \<Rightarrow> sync_text_loop rest (console_error ''Error syncing message:'' w1)
      | (Inr u, w1) \<Rightarrow>
          (case removePendingMessage None w1 of
             (Inl e, w2) \<Rightarrow> sync_text_loop rest (console_error ''Error syncing message:'' w2)
           | (Inr u', w2) \<Rightarrow> sync_text_loop rest w2))"

text \<open>
  \<^verbatim>\<open>syncMessages\<close>. A value that is neither an array nor a string cannot be iterated:
  \<^verbatim>\<open>for ... of\<close> throws a TypeError outside every \<^verbatim>\<open>try\<close>, and the pass rejects
  before the write of \<^verbatim>\<open>'lastSync'\<close>.
\<close>

definition syncMessages :: "world \<Rightarrow> (error + unit) \<times> world" where
  "syncMessages w =
     (if \<not> online w then (Inr (), w)
      else
        (case getPendingMessages w of
           (Inl e, w1) \<Rightarrow> (Inl e, w1)
         | (Inr (Array pending), w1) \<Rightarrow>
             (let w2 = sync_loop pending w1
              in setItem_lastSync (now w2) w2)
         | (Inr (Non_array (Text t)), w1) \<Rightarrow>
             (let w2 = sync_text_loop (map (\<lambda>c. [c]) t) w1
              in setItem_lastSync (now w2) w2)
         | (Inr (Non_array v), w1) \<Rightarrow> (Inl TypeError, w1)))"

section \<open>MessageQueue\<close>

text \<open>The fields of the \<^verbatim>\<open>MessageQueue\<close> singleton.\<close>

record MessageQueue =
  queue :: "QueuedMessage list"
  isProcessing :: bool

text \<open>
  \<^verbatim>\<open>saveQueue\<close> writes the given snapshot of the queue (\<^verbatim>\<open>JSON.stringify(this.queue)\<close>
  is evaluated when the write is issued); its \<^verbatim>\<open>catch\<close> logs and does not rethrow.
\<close>

definition saveQueue :: "QueuedMessage list \<Rightarrow> world \<Rightarrow> (error + unit) \<times> world" where
  "saveQueue snapshot w =
     (case setItem_messageQueue snapshot w of
        (Inl e, w1) \<Rightarrow> (Inr (), console_error ''Error saving queue:'' w1)
      | (Inr u, w1) \<Rightarrow> (Inr (), w1))"

text \<open>
  Modelled from the spec: the Ledger capability \<^verbatim>\<open>submit(recipient, ciphertext) ->
  confirmation | throws\<close>. The body of \<^verbatim>\<open>sendMessage\<close> in the source is a placeholder
  comment; the call is modelled as one submission to the Ledger.
\<close>

definition sendMessage :: "QueuedMessage \<Rightarrow> world \<Rightarrow> (error + unit) \<times> world" where
  "sendMessage message w =
     (let w1 = w\<lparr>q_submitted := q_submitted w @ [message]\<rparr>
      in if q_refuses w message then (Inl SubmissionError, w1)
         else (Inr (), w1\<lparr>q_accepted := q_accepted w1 @ [message]\<rparr>))"

text \<open>
  The \<^verbatim>\<open>while (this.queue.length > 0)\<close> loop of \<^verbatim>\<open>processQueue\<close>, run without any
  other task in between: submit the head; on success shift it and save; on a throw
  log and \<^verbatim>\<open>break\<close>. The result is the queue that is left.
\<close>

fun process_loop :: "QueuedMessage list \<Rightarrow> world \<Rightarrow> QueuedMessage list \<times> world" where
  "process_loop [] w = ([], w)"
| "process_loop (message # rest) w =
     (case sendMessage message w of
        (Inl e, w1) \<Rightarrow> (message # rest, console_error ''Error sending message:'' w1)
      | (Inr u, w1) \<Rightarrow>
          (case saveQueue rest w1 of
             (Inl e, w2) \<Rightarrow> (rest, console_error ''Error sending message:'' w2)
           | (Inr u', w2) \<Rightarrow> process_loop rest w2))"

definition processQueue :: "MessageQueue \<Rightarrow> world \<Rightarrow> MessageQueue \<times> world" where
  "processQueue this w =
     (if isProcessing this \<or> queue this = [] then (this, w)
      else if \<not> isConnected w then (this, w)
      else
        (case process_loop (queue this) w of
           (left, w1) \<Rightarrow> (this\<lparr>queue := left, isProcessing := False\<rparr>, w1)))"

text \<open>
  \<^verbatim>\<open>addToQueue\<close>: push, save, then start \<^verbatim>\<open>processQueue\<close> (not awaited; here the pass
  runs to its end before anything else happens).
\<close>

definition addToQueue ::
  "QueuedMessage \<Rightarrow> MessageQueue \<Rightarrow> world \<Rightarrow> (error + unit) \<times> MessageQueue \<times> world" where
  "addToQueue message this w =
     (let this1 = this\<lparr>queue := queue this @ [message]\<rparr>
      in case saveQueue (queue this1) w of
           (Inl e, w1) \<Rightarrow> (Inl e, this1, w1)
         | (Inr u, w1) \<Rightarrow> (Inr (), processQueue this1 w1))"

subsection \<open>Interleaved executions\<close>

text \<open>
  Each call of \<^verbatim>\<open>addToQueue\<close> is a task that runs until its next \<^verbatim>\<open>await\<close>, where
  other tasks may run. A task is suspended at the write of \<^verbatim>\<open>addToQueue\<close>'s
  \<^verbatim>\<open>saveQueue\<close>, at \<^verbatim>\<open>NetInfo.fetch()\<close>, at \<^verbatim>\<open>sendMessage(message)\<close> or at the write of the
  loop's \<^verbatim>\<open>saveQueue\<close>, or it has returned.
\<close>

datatype task =
    Add_saving "QueuedMessage list"
  | Pass_fetching
  | Pass_sending QueuedMessage
  | Pass_saving "QueuedMessage list"
  | Returned

record system =
  mq :: MessageQueue
  env :: world
  tasks :: "task list"

text \<open>The head of the \<^verbatim>\<open>while\<close> loop, up to the next \<^verbatim>\<open>await\<close>.\<close>

definition loop_head :: "MessageQueue \<Rightarrow> task \<times> MessageQueue" where
  "loop_head q =
     (case queue q of
        [] \<Rightarrow> (Returned, q\<lparr>isProcessing := False\<rparr>)
      | message # rest \<Rightarrow> (Pass_sending message, q))"

text \<open>\<^verbatim>\<open>processQueue\<close> from its entry to its first \<^verbatim>\<open>await\<close>.\<close>

definition enter_processQueue :: "MessageQueue \<Rightarrow> task" where
  "enter_processQueue q = (if isProcessing q \<or> queue q = [] then Returned else Pass_fetching)"

text \<open>
  A suspended task runs from the \<^verbatim>\<open>await\<close> it waits at to its next one. A write
  takes effect, and a submission reaches the Ledger and gets its answer, when the task
  waiting for it resumes. \<^verbatim>\<open>this.queue.shift()\<close> drops whatever heads the queue at that
  moment (nothing when the queue is empty).
\<close>

fun resume :: "task \<Rightarrow> MessageQueue \<Rightarrow> world \<Rightarrow> task \<times> MessageQueue \<times> world" where
  "resume (Add_saving snapshot) q w =
     (case saveQueue snapshot w of (r, w1) \<Rightarrow> (enter_processQueue q, q, w1))"
| "resume Pass_fetching q w =
     (if \<not> isConnected w then (Returned, q, w)
      else (case loop_head (q\<lparr>isProcessing := True\<rparr>) of (t, q1) \<Rightarrow> (t, q1, w)))"
| "resume (Pass_sending message) q w =
     (case sendMessage message w of
        (Inl e, w1) \<Rightarrow>
          (Returned, q\<lparr>isProcessing := False\<rparr>, console_error ''Error sending message:'' w1)
      | (Inr u, w1) \<Rightarrow> (Pass_saving (tl (queue q)), q\<lparr>queue := tl (queue q)\<rparr>, w1))"
| "resume (Pass_saving snapshot) q w =
     (case saveQueue snapshot w of
        (r, w1) \<Rightarrow> (case loop_head q of (t, q1) \<Rightarrow> (t, q1, w1)))"
| "resume Returned q w = (Returned, q, w)"

datatype event = Call_addToQueue QueuedMessage | Resume nat

fun step :: "event \<Rightarrow> system \<Rightarrow> system" where
  "step (Call_addToQueue message) s =
     (let q = (mq s)\<lparr>queue := queue (mq s) @ [message]\<rparr>
      in s\<lparr>mq := q, tasks := tasks s @ [Add_saving (queue q)]\<rparr>)"
| "step (Resume i) s =
     (if i < length (tasks s) then
        (case resume (tasks s ! i) (mq s) (env s) of
           (t, q, w) \<Rightarrow> s\<lparr>mq := q, env := w, tasks := (tasks s)[i := t]\<rparr>)
      else s)"

definition run :: "event list \<Rightarrow> system \<Rightarrow> system" where
  "run events s = fold step events s"

text \<open>A task is inside a sync pass from \<^verbatim>\<open>this.isProcessing = true\<close> until it returns.\<close>

fun in_pass :: "task \<Rightarrow> bool" where
  "in_pass (Pass_sending message) = True"
| "in_pass (Pass_saving snapshot) = True"
| "in_pass t = False"

definition running_passes :: "system \<Rightarrow> nat" where
  "running_passes s = length (filter in_pass (tasks s))"

section \<open>withRetry\<close>

text \<open>
  \<^verbatim>\<open>ErrorHandlerConfig\<close>. The numbers are integers here. \<^verbatim>\<open>onError\<close> is a callback
  with no result; its calls are recorded in the trace below.
\<close>

record ErrorHandlerConfig =
  timeoutMs :: int
  retryAttempts :: int
  retryDelay :: int
  shouldRetry :: "error \<Rightarrow> bool"

text \<open>\<^verbatim>\<open>Partial<ErrorHandlerConfig>\<close>: every field may be left out.\<close>

record PartialConfig =
  timeoutMs_opt :: "int option"
  retryAttempts_opt :: "int option"
  retryDelay_opt :: "int option"
  shouldRetry_opt :: "(error \<Rightarrow> bool) option"

fun is_timeout :: "error \<Rightarrow> bool" where
  "is_timeout (OperationTimeoutError operationType ms) = True"
| "is_timeout e = False"

definition defaultConfig :: ErrorHandlerConfig where
  "defaultConfig =
     \<lparr>timeoutMs = 5000, retryAttempts = 3, retryDelay = 1000,
      shouldRetry = (\<lambda>e. \<not> is_timeout e)\<rparr>"

text \<open>The spread \<^verbatim>\<open>{ ...defaultConfig, ...config }\<close>.\<close>

definition finalConfig :: "PartialConfig \<Rightarrow> ErrorHandlerConfig" where
  "finalConfig config =
     \<lparr>timeoutMs = (case timeoutMs_opt config of None \<Rightarrow> timeoutMs defaultConfig | Some v \<Rightarrow> v),
      retryAttempts =
        (case retryAttempts_opt config of None \<Rightarrow> retryAttempts defaultConfig | Some v \<Rightarrow> v),
      retryDelay = (case retryDelay_opt config of None \<Rightarrow> retryDelay defaultConfig | Some v \<Rightarrow> v),
      shouldRetry =
        (case shouldRetry_opt config of None \<Rightarrow> shouldRetry defaultConfig | Some f \<Rightarrow> f)\<rparr>"

text \<open>
  What one call of the operation does: it settles after some milliseconds, with a
  value or an error, or it never settles.
\<close>

datatype 'a outcome = Settles int "error + 'a" | Never

text \<open>
  \<^verbatim>\<open>withTimeout\<close>: the race of the operation against a timer of \<open>timeoutMs\<close>; the
  operation wins when it settles earlier.
\<close>

fun withTimeout :: "'a outcome \<Rightarrow> int \<Rightarrow> string \<Rightarrow> error + 'a" where
  "withTimeout (Settles d r) ms operationType =
     (if d < ms then r else Inl (OperationTimeoutError operationType ms))"
| "withTimeout Never ms operationType = Inl (OperationTimeoutError operationType ms)"

text \<open>What \<^verbatim>\<open>withRetry\<close> does besides returning: the waits, and the call of \<^verbatim>\<open>onError\<close>.\<close>

datatype retry_event = Waited int | OnError error

text \<open>\<^verbatim>\<open>lastError\<close> is \<^verbatim>\<open>undefined\<close> until the first failure.\<close>

definition give_up :: "error option \<Rightarrow> retry_event list \<Rightarrow> (error + 'a) \<times> retry_event list" where
  "give_up lastError trace =
     (case lastError of
        None \<Rightarrow> (Inl Undefined, trace @ [OnError Undefined])
      | Some e \<Rightarrow> (Inl e, trace @ [OnError e]))"

text \<open>
  The \<^verbatim>\<open>for\<close> loop of \<^verbatim>\<open>withRetry\<close>, from attempt number \<open>attempt\<close>. \<open>operation k\<close> is
  what the call of the operation in attempt \<open>k\<close> does.
\<close>

function retry_loop ::
  "(nat \<Rightarrow> 'a outcome) \<Rightarrow> ErrorHandlerConfig \<Rightarrow> nat \<Rightarrow> error option \<Rightarrow> retry_event list
   \<Rightarrow> (error + 'a) \<times> retry_event list" where
  "retry_loop operation cfg attempt lastError trace =
     (if int attempt < retryAttempts cfg then
        (case withTimeout (operation attempt) (timeoutMs cfg) ''retryableOperation'' of
           Inr v \<Rightarrow> (Inr v, trace)
         | Inl e \<Rightarrow>
             if \<not> shouldRetry cfg e then give_up (Some e) trace
             else if int attempt < retryAttempts cfg - 1 then
               retry_loop operation cfg (Suc attempt) (Some e)
                 (trace @ [Waited (retryDelay cfg * (int attempt + 1))])
             else retry_loop operation cfg (Suc attempt) (Some e) trace)
      else give_up lastError trace)"
  by pat_completeness auto
termination
  by (relation "measure (\<lambda>(operation, cfg, attempt, lastError, trace).
        nat (retryAttempts cfg - int attempt))") auto

definition withRetry ::
  "(nat \<Rightarrow> 'a outcome) \<Rightarrow> PartialConfig \<Rightarrow> (error + 'a) \<times> retry_event list" where
  "withRetry operation config = retry_loop operation (finalConfig config) 0 None []"

text \<open>The retry delays of a run, in order.\<close>

fun delays :: "retry_event list \<Rightarrow> int list" where
  "delays [] = []"
| "delays (Waited d # es) = d # delays es"
| "delays (OnError e # es) = delays es"

section \<open>EncryptionService\<close>

text \<open>
  The calls into the \<^verbatim>\<open>elliptic\<close> and \<^verbatim>\<open>ethers\<close> libraries that \<^verbatim>\<open>encryptMessage\<close>
  makes, as parameters: the ephemeral key pair \<^verbatim>\<open>ec.genKeyPair()\<close> returns, decoding a
  public key (which throws on an invalid key), the key agreement, the hash, and the
  random bytes.
\<close>

record crypto =
  genKeyPair :: string
  keyFromPublic :: "string \<Rightarrow> error + string"
  derive :: "string \<Rightarrow> string \<Rightarrow> string"
  keccak256 :: "string \<Rightarrow> string"
  randomBytes :: "nat \<Rightarrow> string"

text \<open>
  \<^verbatim>\<open>encryptMessage\<close> computes the shared secret, the key and the IV; the encryption
  itself is a placeholder comment, and the function ends with \<^verbatim>\<open>return encrypted\<close>,
  where \<^verbatim>\<open>encrypted\<close> is declared nowhere: evaluating it throws a ReferenceError.
\<close>

definition encryptMessage :: "crypto \<Rightarrow> string \<Rightarrow> string \<Rightarrow> error + string" where
  "encryptMessage lib message recipientPublicKey =
     (let ephemeral = genKeyPair lib in
      case keyFromPublic lib recipientPublicKey of
        Inl e \<Rightarrow> Inl e
      | Inr pub \<Rightarrow>
          (let sharedSecret = derive lib ephemeral pub;
               key = keccak256 lib sharedSecret;
               iv = randomBytes lib 16
           in Inl (ReferenceError ''encrypted'')))"

text \<open>\<^verbatim>\<open>decryptMessage\<close> is the placeholder comment and \<^verbatim>\<open>return decrypted\<close>, likewise.\<close>

definition decryptMessage :: "string \<Rightarrow> string \<Rightarrow> error + string" where
  "decryptMessage encryptedMessage privateKey = Inl (ReferenceError ''decrypted'')"

text \<open>Decrypting what \<^verbatim>\<open>encryptMessage\<close> returned.\<close>

definition decrypt_encrypted :: "crypto \<Rightarrow> string \<Rightarrow> string \<Rightarrow> string \<Rightarrow> error + string" where
  "decrypt_encrypted lib message recipientPublicKey privateKey =
     (case encryptMessage lib message recipientPublicKey of
        Inl e \<Rightarrow> Inl e
      | Inr encrypted \<Rightarrow> decryptMessage encrypted privateKey)"

section \<open>Concrete inputs\<close>

definition m1 :: Message where
  "m1 = \<lparr>msg_id = ''1'', sender = ''alice'', recipient = ''bob'', content = ''c1'',
         timestamp = 100, status = None\<rparr>"

definition m2 :: Message where
  "m2 = \<lparr>msg_id = ''2'', sender = ''alice'', recipient = ''bob'', content = ''c2'',
         timestamp = 200, status = None\<rparr>"

definition m3 :: Message where
  "m3 = \<lparr>msg_id = ''3'', sender = ''alice'', recipient = ''bob'', content = ''c3'',
         timestamp = 300, status = None\<rparr>"

definition qm1 :: QueuedMessage where
  "qm1 = \<lparr>q_id = ''1'', q_recipient = ''bob'', q_content = ''c1'', q_timestamp = 100\<rparr>"

definition qm2 :: QueuedMessage where
  "qm2 = \<lparr>q_id = ''2'', q_recipient = ''bob'', q_content = ''c2'', q_timestamp = 200\<rparr>"

definition qm3 :: QueuedMessage where
  "qm3 = \<lparr>q_id = ''3'', q_recipient = ''bob'', q_content = ''c3'', q_timestamp = 300\<rparr>"

text \<open>
  A fresh installation: nothing stored, no storage fault ahead, the device online, and
  a Ledger that has received nothing and accepts everything.
\<close>

definition world0 :: world where
  "world0 =
     \<lparr>pendingMessages = None, lastSync = None, messageQueue = None, io_faults = [],
      console = [], online = True, now = 1000, submitted = [], accepted = [],
      refuses = (\<lambda>m. False), isConnected = True, q_submitted = [], q_accepted = [],
      q_refuses = (\<lambda>m. False), text_submitted = [], text_refuses = (\<lambda>c. False)\<rparr>"

definition queue0 :: MessageQueue where
  "queue0 = \<lparr>queue = [], isProcessing = False\<rparr>"

definition system0 :: system where
  "system0 = \<lparr>mq = queue0, env = world0, tasks = []\<rparr>"

text \<open>An operation that throws the same retryable error in every attempt.\<close>

definition always_failing :: "nat \<Rightarrow> unit outcome" where
  "always_failing k = Settles 10 (Inl (OperationError ''rejected''))"

text \<open>Storing a list of messages one after the other.\<close>

fun store_all :: "Message list \<Rightarrow> world \<Rightarrow> world" where
  "store_all [] w = w"
| "store_all (m # ms) w = store_all ms (snd (storeMessage m w))"

text \<open>Five attempts instead of the default three.\<close>

definition five_attempts :: PartialConfig where
  "five_attempts = \<lparr>timeoutMs_opt = None, retryAttempts_opt = Some 5, retryDelay_opt = None,
      shouldRetry_opt = None\<rparr>"

text \<open>One message stored on a fresh installation.\<close>

definition one_pending :: world where
  "one_pending = snd (storeMessage m1 world0)"

text \<open>
  The world after a sync pass in which the Ledger acknowledged \<open>m1\<close> and the write that
  removes it from the pending store was rejected (the third AsyncStorage call of the
  pass): the same durable state as after a crash between the acknowledgment and the
  removal.
\<close>

definition acknowledged_not_removed :: world where
  "acknowledged_not_removed = snd (syncMessages (one_pending\<lparr>io_faults := [False, False, True]\<rparr>))"

text \<open>Three messages pending, and a Ledger that throws on the second.\<close>

definition three_pending :: world where
  "three_pending = (store_all [m1, m2, m3] world0)\<lparr>refuses := (\<lambda>m. msg_id m = ''2'')\<rparr>"

definition three_queued :: MessageQueue where
  "three_queued = \<lparr>queue = [qm1, qm2, qm3], isProcessing = False\<rparr>"

definition second_refused :: world where
  "second_refused = world0\<lparr>q_refuses := (\<lambda>m. q_id m = ''2'')\<rparr>"

text \<open>Two messages of the same conversation, and a Ledger that throws on the first.\<close>

definition two_pending :: world where
  "two_pending = (store_all [m1, m2] world0)\<lparr>refuses := (\<lambda>m. msg_id m = ''1'')\<rparr>"

definition two_queued :: MessageQueue where
  "two_queued = \<lparr>queue = [qm1, qm2], isProcessing = False\<rparr>"

definition first_refused :: world where
  "first_refused = world0\<lparr>q_refuses := (\<lambda>m. q_id m = ''1'')\<rparr>"


text \<open>
  Two calls of \<^verbatim>\<open>addToQueue\<close> in a row; then each task in turn finishes its save and
  enters \<^verbatim>\<open>processQueue\<close>, and each in turn gets the answer of \<^verbatim>\<open>NetInfo.fetch()\<close>.
\<close>

definition two_calls :: "event list" where
  "two_calls =
     [Call_addToQueue qm1, Call_addToQueue qm2, Resume 0, Resume 1, Resume 0, Resume 1]"

definition both_sending :: system where
  "both_sending = run two_calls system0"

section \<open>Storage and Ledger lemmas\<close>

lemmas storage_defs = getPendingMessages_def getItem_pendingMessages_def
  setItem_pendingMessages_def setItem_lastSync_def removePendingMessage_def storeMessage_def
  io_call_def JSON_stringify_def console_error_def

lemmas sync_defs = syncMessages_def sendMessageToContract_def Let_def

lemmas queue_defs = saveQueue_def sendMessage_def setItem_messageQueue_def io_call_def
  console_error_def Let_def

lemma getPendingMessages_returns: "\<exists>v. fst (getPendingMessages w) = Inr v"
  by (simp add: getPendingMessages_def getItem_pendingMessages_def io_call_def
      split: list.splits bool.splits option.splits stored_text.splits)

lemma getPendingMessages_frame:
  "submitted (snd (getPendingMessages w)) = submitted w"
  "accepted (snd (getPendingMessages w)) = accepted w"
  "refuses (snd (getPendingMessages w)) = refuses w"
  "pendingMessages (snd (getPendingMessages w)) = pendingMessages w"
  "io_faults (snd (getPendingMessages w)) = tl (io_faults w)"
  by (simp_all add: getPendingMessages_def getItem_pendingMessages_def io_call_def console_error_def
      split: list.splits bool.splits option.splits stored_text.splits)

lemma setItem_pendingMessages_frame:
  "submitted (snd (setItem_pendingMessages t w)) = submitted w"
  "accepted (snd (setItem_pendingMessages t w)) = accepted w"
  "refuses (snd (setItem_pendingMessages t w)) = refuses w"
  by (simp_all add: setItem_pendingMessages_def io_call_def split: list.splits bool.splits)

lemma setItem_lastSync_frame:
  "submitted (snd (setItem_lastSync t w)) = submitted w"
  "accepted (snd (setItem_lastSync t w)) = accepted w"
  "pendingMessages (snd (setItem_lastSync t w)) = pendingMessages w"
  "io_faults w = [] \<Longrightarrow> fst (setItem_lastSync t w) = Inr ()"
  by (simp_all add: setItem_lastSync_def io_call_def split: list.splits bool.splits)

lemma removePendingMessage_frame:
  "submitted (snd (removePendingMessage i w)) = submitted w"
  "accepted (snd (removePendingMessage i w)) = accepted w"
  "refuses (snd (removePendingMessage i w)) = refuses w"
proof -
  obtain r w1 where g: "getPendingMessages w = (r, w1)" by fastforce
  have w1: "submitted w1 = submitted w" "accepted w1 = accepted w" "refuses w1 = refuses w"
    using getPendingMessages_frame [of w] g by simp_all
  obtain v where r: "r = Inr v"
    using getPendingMessages_returns [of w] g by auto
  show "submitted (snd (removePendingMessage i w)) = submitted w"
    "accepted (snd (removePendingMessage i w)) = accepted w"
    "refuses (snd (removePendingMessage i w)) = refuses w"
    by (cases v; simp add: removePendingMessage_def g r setItem_pendingMessages_frame w1)+
qed

lemma getPendingMessages_no_fault:
  "io_faults w = [] \<Longrightarrow> pendingMessages w = Some (Json ms) \<Longrightarrow>
   getPendingMessages w = (Inr (Array ms), w)"
  by (simp add: getPendingMessages_def getItem_pendingMessages_def io_call_def)

lemma removePendingMessage_no_fault:
  "io_faults w = [] \<Longrightarrow> pendingMessages w = Some (Json ms) \<Longrightarrow>
   removePendingMessage (Some i) w =
     (Inr (), w\<lparr>pendingMessages := Some (Json (filter (\<lambda>m. msg_id m \<noteq> i) ms))\<rparr>)"
  by (simp add: removePendingMessage_def getPendingMessages_no_fault setItem_pendingMessages_def
      io_call_def JSON_stringify_def)

text \<open>
  What the loop of \<^verbatim>\<open>syncMessages\<close> does to the Ledger, whatever the storage does: every
  message of the array is submitted, in the array's order.
\<close>

lemma sync_loop_ledger:
  "refuses (sync_loop ms w) = refuses w \<and>
   submitted (sync_loop ms w) = submitted w @ ms \<and>
   accepted (sync_loop ms w) = accepted w @ filter (\<lambda>m. \<not> refuses w m) ms"
proof (induction ms arbitrary: w)
  case Nil show ?case by simp
next
  case (Cons m ms)
  let ?w1 = "w\<lparr>submitted := submitted w @ [m]\<rparr>"
  show ?case
  proof (cases "refuses w m")
    case True
    then have "sync_loop (m # ms) w = sync_loop ms (console_error ''Error syncing message:'' ?w1)"
      by (simp add: sendMessageToContract_def Let_def)
    then show ?thesis using True
      by (simp add: Cons.IH console_error_def del: sync_loop.simps)
  next
    case False
    let ?w2 = "?w1\<lparr>accepted := accepted w @ [m]\<rparr>"
    obtain r w3 where rm: "removePendingMessage (Some (msg_id m)) ?w2 = (r, w3)" by fastforce
    have w3: "submitted w3 = submitted w @ [m]" "accepted w3 = accepted w @ [m]"
      "refuses w3 = refuses w"
      using removePendingMessage_frame [of "Some (msg_id m)" ?w2] rm by simp_all
    have "sync_loop (m # ms) w = sync_loop ms w3
        \<or> sync_loop (m # ms) w = sync_loop ms (console_error ''Error syncing message:'' w3)"
      using False rm by (cases r) (simp_all add: sendMessageToContract_def Let_def)
    then show ?thesis using False w3
      by (auto simp add: Cons.IH console_error_def simp del: sync_loop.simps)
  qed
qed

text \<open>What the loop does to the pending store when no AsyncStorage call is rejected.\<close>

lemma sync_loop_pending:
  "io_faults w = [] \<Longrightarrow> pendingMessages w = Some (Json cur) \<Longrightarrow>
   io_faults (sync_loop ms w) = [] \<and>
   pendingMessages (sync_loop ms w) =
     Some (Json (filter (\<lambda>x. msg_id x \<notin> set (map msg_id (filter (\<lambda>m. \<not> refuses w m) ms)))
       cur))"
proof (induction ms arbitrary: w cur)
  case Nil then show ?case by simp
next
  case (Cons m ms)
  let ?w1 = "w\<lparr>submitted := submitted w @ [m]\<rparr>"
  show ?case
  proof (cases "refuses w m")
    case True
    let ?w2 = "console_error ''Error syncing message:'' ?w1"
    have step: "sync_loop (m # ms) w = sync_loop ms ?w2"
      using True by (simp add: sendMessageToContract_def Let_def)
    have "io_faults ?w2 = []" "pendingMessages ?w2 = Some (Json cur)" "refuses ?w2 = refuses w"
      using Cons.prems by (simp_all add: console_error_def)
    with Cons.IH [of ?w2 cur] True show ?thesis
      by (simp add: step del: sync_loop.simps)
  next
    case False
    let ?w2 = "?w1\<lparr>accepted := accepted w @ [m]\<rparr>"
    let ?cur = "filter (\<lambda>x. msg_id x \<noteq> msg_id m) cur"
    let ?w3 = "?w2\<lparr>pendingMessages := Some (Json ?cur)\<rparr>"
    have "removePendingMessage (Some (msg_id m)) ?w2 = (Inr (), ?w3)"
      using Cons.prems by (simp add: removePendingMessage_no_fault)
    then have step: "sync_loop (m # ms) w = sync_loop ms ?w3"
      using False by (simp add: sendMessageToContract_def Let_def)
    have "io_faults ?w3 = []" "pendingMessages ?w3 = Some (Json ?cur)" "refuses ?w3 = refuses w"
      using Cons.prems by simp_all
    with Cons.IH [of ?w3 ?cur] False show ?thesis
      by (auto simp add: step simp del: sync_loop.simps intro!: filter_cong)
  qed
qed

lemma syncMessages_ledger:
  assumes "online w" and "fst (getPendingMessages w) = Inr (Array ms)"
  shows "submitted (snd (syncMessages w)) = submitted w @ ms"
    and "accepted (snd (syncMessages w)) = accepted w @ filter (\<lambda>m. \<not> refuses w m) ms"
proof -
  obtain w1 where g: "getPendingMessages w = (Inr (Array ms), w1)"
    using assms(2) by (cases "getPendingMessages w") simp
  have w1: "submitted w1 = submitted w" "accepted w1 = accepted w" "refuses w1 = refuses w"
    using getPendingMessages_frame [of w] g by simp_all
  have e: "syncMessages w = setItem_lastSync (now (sync_loop ms w1)) (sync_loop ms w1)"
    using assms(1) by (simp add: syncMessages_def g Let_def)
  show "submitted (snd (syncMessages w)) = submitted w @ ms"
    by (simp add: e setItem_lastSync_frame sync_loop_ledger w1)
  show "accepted (snd (syncMessages w)) = accepted w @ filter (\<lambda>m. \<not> refuses w m) ms"
    by (simp add: e setItem_lastSync_frame sync_loop_ledger w1)
qed

lemma count_list_filter:
  "count_list (filter P xs) x = (if P x then count_list xs x else 0)"
  by (induction xs) auto

lemma one_pending_eval: "one_pending = world0\<lparr>pendingMessages := Some (Json [m1])\<rparr>"
  by (simp add: one_pending_def storage_defs world0_def)

lemma acknowledged_not_removed_eval:
  "acknowledged_not_removed = world0\<lparr>pendingMessages := Some (Json [m1]), lastSync := Some 1000,
       console := [''Error syncing message:''], submitted := [m1], accepted := [m1]\<rparr>"
  by (simp add: acknowledged_not_removed_def one_pending_eval storage_defs sync_defs world0_def)

section \<open>C1: no idempotency check\<close>

text \<open>
  C1, as amended. A sync pass makes no idempotency check. \<^verbatim>\<open>syncMessages\<close>, when online,
  submits every entry it reads from the pending store, once for each time the entry
  stands there, whatever the Ledger has received before; the Ledger acknowledges each
  submission it does not throw on. So a message that was acknowledged and is still in
  the pending store is submitted and acknowledged again by the next pass.
\<close>

theorem syncMessages_no_idempotency_check:
  assumes "online w" and "fst (getPendingMessages w) = Inr (Array ms)"
  shows "count_list (submitted (snd (syncMessages w))) m =
           count_list (submitted w) m + count_list ms m \<and>
         count_list (accepted (snd (syncMessages w))) m =
           count_list (accepted w) m + (if refuses w m then 0 else count_list ms m)"
  using syncMessages_ledger [OF assms]
  by (simp add: count_list_filter)

text \<open>
  The theorem at the world in which \<open>m1\<close> is acknowledged and still pending: after the
  next pass the Ledger has received and acknowledged \<open>m1\<close> twice.
\<close>

theorem syncMessages_no_idempotency_check_witness:
  "count_list (submitted (snd (syncMessages acknowledged_not_removed))) m1 = 2 \<and>
   count_list (accepted (snd (syncMessages acknowledged_not_removed))) m1 = 2"
proof -
  have w: "online acknowledged_not_removed"
    "fst (getPendingMessages acknowledged_not_removed) = Inr (Array [m1])"
    "submitted acknowledged_not_removed = [m1]" "accepted acknowledged_not_removed = [m1]"
    "\<not> refuses acknowledged_not_removed m1"
    by (simp_all add: acknowledged_not_removed_eval getPendingMessages_def
        getItem_pendingMessages_def io_call_def world0_def)
  show ?thesis
    using syncMessages_no_idempotency_check [OF w(1,2), of m1] w(3,4,5) by simp
qed

text \<open>
  The claim as stated fails: the Ledger has acknowledged \<open>m1\<close> once, \<open>m1\<close> is still
  pending, and the next pass submits it a second time.
\<close>

theorem syncMessages_submits_twice:
  "accepted acknowledged_not_removed = [m1] \<and>
   fst (getPendingMessages acknowledged_not_removed) = Inr (Array [m1]) \<and>
   submitted (snd (syncMessages acknowledged_not_removed)) = [m1, m1] \<and>
   accepted (snd (syncMessages acknowledged_not_removed)) = [m1, m1]"
  by (simp add: acknowledged_not_removed_eval storage_defs sync_defs world0_def)

section \<open>C2: what storeMessage leaves in the pending store\<close>

text \<open>
  C2, at the failing input. The pending store holds \<open>m1\<close>. \<^verbatim>\<open>storeMessage(m2)\<close> is
  called and its read is rejected once; \<^verbatim>\<open>getPendingMessages\<close> turns the rejection
  into the empty array, the write succeeds, and \<^verbatim>\<open>storeMessage\<close> returns normally. A
  fresh read then gives \<open>m2\<close> alone: \<open>m1\<close>, pending before the call, is gone.
\<close>

theorem storeMessage_loses_pending:
  "fst (getPendingMessages one_pending) = Inr (Array [m1]) \<and>
   fst (storeMessage m2 (one_pending\<lparr>io_faults := [True]\<rparr>)) = Inr () \<and>
   fst (getPendingMessages (snd (storeMessage m2 (one_pending\<lparr>io_faults := [True]\<rparr>))))
     = Inr (Array [m2])"
  by (simp add: one_pending_eval storage_defs world0_def)

section \<open>C3: a failed submission and the rest of the pass\<close>

text \<open>
  C3, as amended. In \<^verbatim>\<open>OfflineStorage.syncMessages\<close> a submission that throws does not
  stop the pass. When the device is online and no AsyncStorage call is rejected, the
  pass returns normally, submits every pending entry in stored order, the Ledger
  acknowledges the ones it does not throw on, and exactly the entries whose \<^verbatim>\<open>id\<close> is
  the \<^verbatim>\<open>id\<close> of an acknowledged entry are removed from the pending store.
\<close>

theorem syncMessages_failure_isolation:
  assumes "online w" and "io_faults w = []" and "pendingMessages w = Some (Json ms)"
  shows "fst (syncMessages w) = Inr () \<and>
         submitted (snd (syncMessages w)) = submitted w @ ms \<and>
         accepted (snd (syncMessages w)) = accepted w @ filter (\<lambda>m. \<not> refuses w m) ms \<and>
         pendingMessages (snd (syncMessages w)) =
           Some (Json (filter
             (\<lambda>x. msg_id x \<notin> set (map msg_id (filter (\<lambda>m. \<not> refuses w m) ms))) ms))"
proof -
  have g: "getPendingMessages w = (Inr (Array ms), w)"
    using assms(2,3) by (rule getPendingMessages_no_fault)
  have e: "syncMessages w = setItem_lastSync (now (sync_loop ms w)) (sync_loop ms w)"
    using assms(1) by (simp add: syncMessages_def g Let_def)
  have l: "io_faults (sync_loop ms w) = []"
    "pendingMessages (sync_loop ms w) = Some (Json (filter
       (\<lambda>x. msg_id x \<notin> set (map msg_id (filter (\<lambda>m. \<not> refuses w m) ms))) ms))"
    using sync_loop_pending [OF assms(2,3), of ms] by simp_all
  show ?thesis
    using sync_loop_ledger [of ms w] l
    by (simp add: e setItem_lastSync_frame)
qed

text \<open>
  Three pending entries, the second submission throws: the first and the third are
  submitted, acknowledged and removed in the same pass; the second stays pending.
\<close>

theorem syncMessages_failure_isolation_witness:
  "fst (syncMessages three_pending) = Inr () \<and>
   submitted (snd (syncMessages three_pending)) = [m1, m2, m3] \<and>
   accepted (snd (syncMessages three_pending)) = [m1, m3] \<and>
   pendingMessages (snd (syncMessages three_pending)) = Some (Json [m2])"
proof -
  have v: "three_pending = world0\<lparr>pendingMessages := Some (Json [m1, m2, m3]),
      refuses := (\<lambda>m. msg_id m = ''2'')\<rparr>"
    by (simp add: three_pending_def storage_defs world0_def)
  have h: "online three_pending" "io_faults three_pending = []"
    "pendingMessages three_pending = Some (Json [m1, m2, m3])"
    by (simp_all add: v world0_def)
  have r: "refuses three_pending = (\<lambda>m. msg_id m = ''2'')"
    "submitted three_pending = []" "accepted three_pending = []"
    by (simp_all add: v world0_def)
  show ?thesis
    using syncMessages_failure_isolation [OF h]
    by (simp add: r m1_def m2_def m3_def)
qed

text \<open>
  The claim as stated fails for the other sync pass, \<^verbatim>\<open>MessageQueue.processQueue\<close>: of
  three queued entries with the second submission throwing, the third is never
  submitted; the \<^verbatim>\<open>break\<close> ends the pass.
\<close>

theorem processQueue_stops_at_failure:
  "q_submitted (snd (processQueue three_queued second_refused)) = [qm1, qm2] \<and>
   q_accepted (snd (processQueue three_queued second_refused)) = [qm1] \<and>
   queue (fst (processQueue three_queued second_refused)) = [qm2, qm3]"
  by (simp add: processQueue_def three_queued_def second_refused_def world0_def queue_defs
      qm1_def qm2_def qm3_def)

section \<open>C4: order of submission\<close>

lemma saveQueue_frame:
  "fst (saveQueue q w) = Inr ()"
  "q_refuses (snd (saveQueue q w)) = q_refuses w"
  "q_submitted (snd (saveQueue q w)) = q_submitted w"
  "q_accepted (snd (saveQueue q w)) = q_accepted w"
  "isConnected (snd (saveQueue q w)) = isConnected w"
  by (simp_all add: saveQueue_def setItem_messageQueue_def io_call_def console_error_def
      split: list.splits bool.splits)

text \<open>
  The loop of \<^verbatim>\<open>processQueue\<close> takes the longest prefix of the queue that the Ledger
  acknowledges, and submits one entry more when there is one.
\<close>

lemma process_loop_prefix:
  "fst (process_loop q w) = dropWhile (\<lambda>m. \<not> q_refuses w m) q \<and>
   q_refuses (snd (process_loop q w)) = q_refuses w \<and>
   q_accepted (snd (process_loop q w)) = q_accepted w @ takeWhile (\<lambda>m. \<not> q_refuses w m) q \<and>
   q_submitted (snd (process_loop q w)) =
     q_submitted w @ takeWhile (\<lambda>m. \<not> q_refuses w m) q
       @ take 1 (dropWhile (\<lambda>m. \<not> q_refuses w m) q)"
proof (induction q arbitrary: w)
  case Nil show ?case by simp
next
  case (Cons m q)
  show ?case
  proof (cases "q_refuses w m")
    case True
    then show ?thesis
      by (simp add: sendMessage_def Let_def console_error_def)
  next
    case False
    let ?w1 = "w\<lparr>q_submitted := q_submitted w @ [m], q_accepted := q_accepted w @ [m]\<rparr>"
    obtain r w2 where sv: "saveQueue q ?w1 = (r, w2)" by fastforce
    have r: "r = Inr ()" using saveQueue_frame(1) [of q ?w1] sv by simp
    have w2: "q_refuses w2 = q_refuses w" "q_submitted w2 = q_submitted w @ [m]"
      "q_accepted w2 = q_accepted w @ [m]"
      using saveQueue_frame(2-4) [of q ?w1] sv by simp_all
    have step: "process_loop (m # q) w = process_loop q w2"
      using False sv r by (simp add: sendMessage_def Let_def)
    show ?thesis using False w2 Cons.IH [of w2]
      by (simp add: step del: process_loop.simps)
  qed
qed

text \<open>
  C4, as amended. A pass of \<^verbatim>\<open>MessageQueue.processQueue\<close> that runs on its own (the flag
  clear, the device connected) submits the queue from its head, in queue order, and
  stops at the first entry whose submission throws: the acknowledged entries are the
  longest prefix of the queue the Ledger accepts and they leave the queue; the entry
  that failed and every entry behind it stay queued, and nothing behind the failed
  entry is submitted. Acknowledged entries followed by the queue is the same sequence
  before and after the pass, so over any number of passes the Ledger acknowledges the
  entries in the order in which they were queued.
\<close>

theorem processQueue_in_queue_order:
  assumes "\<not> isProcessing this" and "isConnected w"
  shows "queue (fst (processQueue this w)) = dropWhile (\<lambda>m. \<not> q_refuses w m) (queue this) \<and>
         q_accepted (snd (processQueue this w)) =
           q_accepted w @ takeWhile (\<lambda>m. \<not> q_refuses w m) (queue this) \<and>
         q_submitted (snd (processQueue this w)) =
           q_submitted w @ takeWhile (\<lambda>m. \<not> q_refuses w m) (queue this)
             @ take 1 (dropWhile (\<lambda>m. \<not> q_refuses w m) (queue this)) \<and>
         q_accepted (snd (processQueue this w)) @ queue (fst (processQueue this w)) =
           q_accepted w @ queue this"
proof (cases "queue this = []")
  case True
  then show ?thesis by (simp add: processQueue_def)
next
  case False
  obtain left w1 where p: "process_loop (queue this) w = (left, w1)" by fastforce
  have e: "processQueue this w = (this\<lparr>queue := left, isProcessing := False\<rparr>, w1)"
    using assms False by (simp add: processQueue_def p)
  show ?thesis
    using process_loop_prefix [of "queue this" w]
    by (simp add: e p)
qed

text \<open>
  Two queued entries, the first submission throws: only the first is submitted, and
  both stay queued in their order.
\<close>

theorem processQueue_in_queue_order_witness:
  "queue (fst (processQueue two_queued first_refused)) = [qm1, qm2] \<and>
   q_accepted (snd (processQueue two_queued first_refused)) = [] \<and>
   q_submitted (snd (processQueue two_queued first_refused)) = [qm1]"
proof -
  have h: "\<not> isProcessing two_queued" "isConnected first_refused"
    by (simp_all add: two_queued_def first_refused_def world0_def)
  show ?thesis
    using processQueue_in_queue_order [OF h]
    by (simp add: two_queued_def first_refused_def world0_def qm1_def qm2_def)
qed

text \<open>
  The claim as stated fails for \<^verbatim>\<open>OfflineStorage.syncMessages\<close>: \<open>m1\<close> (t = 100) and \<open>m2\<close>
  (t = 200) are pending in that order and the submission of \<open>m1\<close> throws. The same
  pass submits \<open>m2\<close>, which is acknowledged while \<open>m1\<close> is not; after the retry in the
  next pass the Ledger holds \<open>m2\<close> before \<open>m1\<close>.
\<close>

theorem syncMessages_second_overtakes:
  "timestamp m1 < timestamp m2 \<and>
   submitted (snd (syncMessages two_pending)) = [m1, m2] \<and>
   accepted (snd (syncMessages two_pending)) = [m2] \<and>
   accepted (snd (syncMessages ((snd (syncMessages two_pending))\<lparr>refuses := (\<lambda>m. False)\<rparr>)))
     = [m2, m1]"
proof -
  have v: "two_pending = world0\<lparr>pendingMessages := Some (Json [m1, m2]),
      refuses := (\<lambda>m. msg_id m = ''1'')\<rparr>"
    by (simp add: two_pending_def storage_defs world0_def)
  show ?thesis
    by (simp add: v storage_defs sync_defs world0_def m1_def m2_def)
qed

section \<open>C5: the order of getPendingMessages\<close>

lemma storeMessage_appends:
  assumes "io_faults w = []" and "fst (getPendingMessages w) = Inr (Array ms)"
  shows "fst (storeMessage m w) = Inr ()"
    and "io_faults (snd (storeMessage m w)) = []"
    and "pendingMessages (snd (storeMessage m w)) = Some (Json (ms @ [m]))"
proof -
  obtain w1 where g: "getPendingMessages w = (Inr (Array ms), w1)"
    using assms(2) by (cases "getPendingMessages w") simp
  have w1: "io_faults w1 = []"
    using getPendingMessages_frame(5) [of w] g assms(1) by simp
  have e: "storeMessage m w = (Inr (), w1\<lparr>pendingMessages := Some (Json (ms @ [m]))\<rparr>)"
    by (simp add: storeMessage_def g setItem_pendingMessages_def io_call_def w1
        JSON_stringify_def)
  show "fst (storeMessage m w) = Inr ()" "io_faults (snd (storeMessage m w)) = []"
    "pendingMessages (snd (storeMessage m w)) = Some (Json (ms @ [m]))"
    by (simp_all add: e w1)
qed

lemma store_all_appends:
  "io_faults w = [] \<Longrightarrow> fst (getPendingMessages w) = Inr (Array ms) \<Longrightarrow>
   io_faults (store_all xs w) = [] \<and> fst (getPendingMessages (store_all xs w)) = Inr (Array (ms @ xs))"
proof (induction xs arbitrary: w ms)
  case Nil then show ?case by simp
next
  case (Cons x xs)
  let ?w = "snd (storeMessage x w)"
  have a: "io_faults ?w = []" "pendingMessages ?w = Some (Json (ms @ [x]))"
    using storeMessage_appends(2,3) [OF Cons.prems] by simp_all
  then have "fst (getPendingMessages ?w) = Inr (Array (ms @ [x]))"
    by (simp add: getPendingMessages_no_fault)
  with Cons.IH [OF a(1)] show ?case by simp
qed

text \<open>
  C5, as amended. \<^verbatim>\<open>getPendingMessages\<close> returns the entries in the order in which they
  were stored: when no AsyncStorage call is rejected, after storing the messages \<open>xs\<close>
  one after the other it returns what it returned before, followed by \<open>xs\<close> in the
  order of the calls. Nothing sorts by \<^verbatim>\<open>timestamp\<close>.
\<close>

theorem getPendingMessages_enqueue_order:
  assumes "io_faults w = []" and "fst (getPendingMessages w) = Inr (Array ms)"
  shows "fst (getPendingMessages (store_all xs w)) = Inr (Array (ms @ xs))"
  using store_all_appends [OF assms] by simp

text \<open>On a fresh installation, \<open>m2\<close> stored before \<open>m1\<close> comes back before \<open>m1\<close>.\<close>

theorem getPendingMessages_enqueue_order_witness:
  "fst (getPendingMessages (store_all [m2, m1] world0)) = Inr (Array [m2, m1])"
proof -
  have h: "io_faults world0 = []" "fst (getPendingMessages world0) = Inr (Array [])"
    by (simp_all add: getPendingMessages_def getItem_pendingMessages_def io_call_def world0_def)
  show ?thesis
    using getPendingMessages_enqueue_order [OF h, of "[m2, m1]"] by simp
qed

text \<open>
  The claim as stated fails: \<open>m2\<close> (t = 200) is stored before \<open>m1\<close> (t = 100), and the
  result is not ascending in \<^verbatim>\<open>timestamp\<close>.
\<close>

theorem getPendingMessages_not_sorted:
  "fst (getPendingMessages (store_all [m2, m1] world0)) = Inr (Array [m2, m1]) \<and>
   map timestamp [m2, m1] = [200, 100] \<and> \<not> sorted (map timestamp [m2, m1])"
  by (simp add: storage_defs world0_def m1_def m2_def)

section \<open>C6: a rejected write\<close>






section \<open>C7: encryption and decryption\<close>

text \<open>
  C7, on the code. For every message, keys and library behaviour, \<^verbatim>\<open>encryptMessage\<close>
  throws instead of returning a ciphertext, \<^verbatim>\<open>decryptMessage\<close> throws for every
  input, and so decrypting the encryption of a message never returns the message.
\<close>

theorem encryptMessage_returns_no_ciphertext:
  "(\<exists>e. encryptMessage lib message recipientPublicKey = Inl e) \<and>
   (\<exists>e. decryptMessage encryptedMessage privateKey = Inl e) \<and>
   decrypt_encrypted lib message recipientPublicKey privateKey \<noteq> Inr message"
  by (simp add: encryptMessage_def decryptMessage_def decrypt_encrypted_def Let_def
      split: sum.splits)

section \<open>C8: one pass at a time\<close>

text \<open>A trigger that finds the flag set returns at once and changes nothing.\<close>

lemma processQueue_coalesced: "isProcessing this \<Longrightarrow> processQueue this w = (this, w)"
  by (simp add: processQueue_def)

lemmas step_defs = run_def enter_processQueue_def loop_head_def queue_defs

lemma run_append: "run (xs @ ys) s = run ys (run xs s)"
  by (simp add: run_def)

lemma run_Cons: "run (x # xs) s = run xs (step x s)"
  by (simp add: run_def)

lemma run_Nil: "run [] s = s"
  by (simp add: run_def)

text \<open>
  The interleaved semantics agrees with the functions above: a task that runs with no
  other task in between ends where \<open>process_loop\<close> and \<open>addToQueue\<close> end.
\<close>

lemma pass_alone:
  "queue q = m # rest \<Longrightarrow>
   \<exists>n. run (replicate n (Resume 0)) \<lparr>mq = q, env = w, tasks = [Pass_sending m]\<rparr> =
     \<lparr>mq = q\<lparr>queue := fst (process_loop (m # rest) w), isProcessing := False\<rparr>,
      env = snd (process_loop (m # rest) w), tasks = [Returned]\<rparr>"
proof (induction rest arbitrary: q m w)
  case Nil
  show ?case
  proof (cases "q_refuses w m")
    case True
    have "run (replicate 1 (Resume 0)) \<lparr>mq = q, env = w, tasks = [Pass_sending m]\<rparr> =
     \<lparr>mq = q\<lparr>queue := fst (process_loop [m] w), isProcessing := False\<rparr>,
      env = snd (process_loop [m] w), tasks = [Returned]\<rparr>"
      using True Nil by (simp add: run_def sendMessage_def Let_def)
    then show ?thesis by blast
  next
    case False
    obtain r w2 where sv: "saveQueue [] (w\<lparr>q_submitted := q_submitted w @ [m],
        q_accepted := q_accepted w @ [m]\<rparr>) = (r, w2)" by fastforce
    have r: "r = Inr ()" using saveQueue_frame(1) sv by (metis fst_conv)
    have "run (replicate 2 (Resume 0)) \<lparr>mq = q, env = w, tasks = [Pass_sending m]\<rparr> =
     \<lparr>mq = q\<lparr>queue := fst (process_loop [m] w), isProcessing := False\<rparr>,
      env = snd (process_loop [m] w), tasks = [Returned]\<rparr>"
      using False Nil sv r
      by (simp add: run_def sendMessage_def Let_def loop_head_def numeral_2_eq_2)
    then show ?thesis by blast
  qed
next
  case (Cons m' rest)
  show ?case
  proof (cases "q_refuses w m")
    case True
    have "run (replicate 1 (Resume 0)) \<lparr>mq = q, env = w, tasks = [Pass_sending m]\<rparr> =
     \<lparr>mq = q\<lparr>queue := fst (process_loop (m # m' # rest) w), isProcessing := False\<rparr>,
      env = snd (process_loop (m # m' # rest) w), tasks = [Returned]\<rparr>"
      using True Cons.prems by (simp add: run_def sendMessage_def Let_def)
    then show ?thesis by blast
  next
    case False
    let ?w1 = "w\<lparr>q_submitted := q_submitted w @ [m], q_accepted := q_accepted w @ [m]\<rparr>"
    let ?q1 = "q\<lparr>queue := m' # rest\<rparr>"
    obtain r w2 where sv: "saveQueue (m' # rest) ?w1 = (r, w2)" by fastforce
    have r: "r = Inr ()" using saveQueue_frame(1) sv by (metis fst_conv)
    have two: "run (replicate 2 (Resume 0)) \<lparr>mq = q, env = w, tasks = [Pass_sending m]\<rparr> =
        \<lparr>mq = ?q1, env = w2, tasks = [Pass_sending m']\<rparr>"
      using False Cons.prems sv
      by (simp add: run_def sendMessage_def Let_def loop_head_def numeral_2_eq_2)
    have pl: "process_loop (m # m' # rest) w = process_loop (m' # rest) w2"
      using False sv r by (simp add: sendMessage_def Let_def)
    obtain n where n: "run (replicate n (Resume 0)) \<lparr>mq = ?q1, env = w2, tasks = [Pass_sending m']\<rparr> =
        \<lparr>mq = ?q1\<lparr>queue := fst (process_loop (m' # rest) w2), isProcessing := False\<rparr>,
         env = snd (process_loop (m' # rest) w2), tasks = [Returned]\<rparr>"
      using Cons.IH [of ?q1 m' w2] by auto
    have "run (replicate (2 + n) (Resume 0)) \<lparr>mq = q, env = w, tasks = [Pass_sending m]\<rparr> =
        \<lparr>mq = q\<lparr>queue := fst (process_loop (m # m' # rest) w), isProcessing := False\<rparr>,
         env = snd (process_loop (m # m' # rest) w), tasks = [Returned]\<rparr>"
      unfolding replicate_add run_append two n pl by simp
    then show ?thesis by blast
  qed
qed

lemma addToQueue_alone:
  "\<exists>n. run (Call_addToQueue m # replicate n (Resume 0)) \<lparr>mq = q, env = w, tasks = []\<rparr> =
     \<lparr>mq = fst (snd (addToQueue m q w)), env = snd (snd (addToQueue m q w)),
      tasks = [Returned]\<rparr>"
proof -
  let ?q1 = "q\<lparr>queue := queue q @ [m]\<rparr>"
  obtain r w1 where sv: "saveQueue (queue q @ [m]) w = (r, w1)" by fastforce
  have r: "r = Inr ()" using saveQueue_frame(1) sv by (metis fst_conv)
  have seq: "addToQueue m q w = (Inr (), processQueue ?q1 w1)"
    by (simp add: addToQueue_def Let_def sv r)
  have call: "step (Call_addToQueue m) \<lparr>mq = q, env = w, tasks = []\<rparr> =
      \<lparr>mq = ?q1, env = w, tasks = [Add_saving (queue q @ [m])]\<rparr>"
    by (simp add: Let_def)
  have one: "step (Resume 0) \<lparr>mq = ?q1, env = w, tasks = [Add_saving (queue q @ [m])]\<rparr> =
      \<lparr>mq = ?q1, env = w1, tasks = [enter_processQueue ?q1]\<rparr>"
    by (simp add: sv)
  show ?thesis
  proof (cases "isProcessing q")
    case True
    have "run (Call_addToQueue m # replicate 1 (Resume 0)) \<lparr>mq = q, env = w, tasks = []\<rparr> =
       \<lparr>mq = fst (snd (addToQueue m q w)), env = snd (snd (addToQueue m q w)),
        tasks = [Returned]\<rparr>"
      using True by (simp add: run_Cons run_Nil call one seq enter_processQueue_def
          processQueue_def del: step.simps)
    then show ?thesis by blast
  next
    case idle: False
    then have enter: "enter_processQueue ?q1 = Pass_fetching"
      by (simp add: enter_processQueue_def)
    show ?thesis
    proof (cases "isConnected w1")
      case False
      have "run (Call_addToQueue m # replicate 2 (Resume 0)) \<lparr>mq = q, env = w, tasks = []\<rparr> =
         \<lparr>mq = fst (snd (addToQueue m q w)), env = snd (snd (addToQueue m q w)),
          tasks = [Returned]\<rparr>"
        using False idle
        by (simp add: run_Cons run_Nil call one enter seq processQueue_def numeral_2_eq_2
            del: step.simps) simp
      then show ?thesis by blast
    next
      case True
      obtain h rest where hr: "queue q @ [m] = h # rest"
        by (cases "queue q @ [m]") simp_all
      let ?q2 = "?q1\<lparr>isProcessing := True\<rparr>"
      have fetch: "step (Resume 0) \<lparr>mq = ?q1, env = w1, tasks = [Pass_fetching]\<rparr> =
          \<lparr>mq = ?q2, env = w1, tasks = [Pass_sending h]\<rparr>"
        using True hr by (simp add: loop_head_def)
      obtain n where n: "run (replicate n (Resume 0)) \<lparr>mq = ?q2, env = w1, tasks = [Pass_sending h]\<rparr> =
          \<lparr>mq = ?q2\<lparr>queue := fst (process_loop (h # rest) w1), isProcessing := False\<rparr>,
           env = snd (process_loop (h # rest) w1), tasks = [Returned]\<rparr>"
        using pass_alone [of ?q2 h rest w1] hr by auto
      have pq: "processQueue ?q1 w1 =
          (?q1\<lparr>queue := fst (process_loop (h # rest) w1), isProcessing := False\<rparr>,
           snd (process_loop (h # rest) w1))"
        using True idle hr by (simp add: processQueue_def split: prod.splits)
      have "run (Call_addToQueue m # replicate (2 + n) (Resume 0))
          \<lparr>mq = q, env = w, tasks = []\<rparr> =
         \<lparr>mq = fst (snd (addToQueue m q w)), env = snd (snd (addToQueue m q w)),
          tasks = [Returned]\<rparr>"
        unfolding replicate_add run_Cons call numeral_2_eq_2 replicate_Suc replicate_0
          append_Cons append_Nil one enter fetch n seq pq
        by simp
      then show ?thesis by blast
    qed
  qed
qed

lemma both_sending_eval:
  "both_sending = \<lparr>mq = \<lparr>queue = [qm1, qm2], isProcessing = True\<rparr>,
      env = world0\<lparr>messageQueue := Some [qm1, qm2]\<rparr>,
      tasks = [Pass_sending qm1, Pass_sending qm1]\<rparr>"
  by (simp add: both_sending_def two_calls_def system0_def queue0_def world0_def step_defs)

text \<open>
  C8, at the failing input. \<^verbatim>\<open>addToQueue\<close> is called twice in a row. Each call, after its
  save, enters \<^verbatim>\<open>processQueue\<close> while the flag is still clear, since the flag is set
  only after \<^verbatim>\<open>await NetInfo.fetch()\<close>. Both invocations then set the flag and
  read the same head of the queue: two passes run at once. Run to their end, they
  submit \<open>qm1\<close> twice, and the second \<^verbatim>\<open>shift()\<close> drops \<open>qm2\<close>, which is never submitted.
\<close>

theorem processQueue_two_passes_at_once:
  "tasks both_sending = [Pass_sending qm1, Pass_sending qm1] \<and>
   running_passes both_sending = 2 \<and>
   q_submitted (env (run [Resume 0, Resume 1, Resume 0, Resume 1] both_sending)) = [qm1, qm1] \<and>
   q_accepted (env (run [Resume 0, Resume 1, Resume 0, Resume 1] both_sending)) = [qm1, qm1] \<and>
   queue (mq (run [Resume 0, Resume 1, Resume 0, Resume 1] both_sending)) = [] \<and>
   tasks (run [Resume 0, Resume 1, Resume 0, Resume 1] both_sending) = [Returned, Returned]"
  by (simp add: both_sending_eval running_passes_def world0_def step_defs)

section \<open>C9: the retry delays\<close>

lemma delays_append: "delays (xs @ ys) = delays xs @ delays ys"
  by (induction xs rule: delays.induct) simp_all

lemma give_up_delays: "delays (snd (give_up lastError trace)) = delays trace"
  by (simp add: give_up_def delays_append split: option.splits)

lemma retry_loop_delays:
  assumes "\<forall>k. \<exists>e. withTimeout (operation k) (timeoutMs cfg) ''retryableOperation'' = Inl e
             \<and> shouldRetry cfg e"
  shows "delays (snd (retry_loop operation cfg attempt lastError trace)) =
     delays trace @ map (\<lambda>k. retryDelay cfg * (int k + 1)) [attempt..<nat (retryAttempts cfg - 1)]"
  using assms
proof (induction operation cfg attempt lastError trace rule: retry_loop.induct)
  case (1 operation cfg attempt lastError trace)
  obtain e where e: "withTimeout (operation attempt) (timeoutMs cfg) ''retryableOperation'' = Inl e"
    and sr: "shouldRetry cfg e"
    using "1.prems" by blast
  show ?case
  proof (cases "int attempt < retryAttempts cfg")
    case False
    then have "[attempt..<nat (retryAttempts cfg - 1)] = []" by simp
    with False show ?thesis
      by (subst retry_loop.simps) (simp add: give_up_delays)
  next
    case True
    show ?thesis
    proof (cases "int attempt < retryAttempts cfg - 1")
      case less: True
      then have "attempt < nat (retryAttempts cfg - 1)" by linarith
      then have upt: "[attempt..<nat (retryAttempts cfg - 1)] =
          attempt # [Suc attempt..<nat (retryAttempts cfg - 1)]"
        by (rule upt_conv_Cons)
      have "delays (snd (retry_loop operation cfg attempt lastError trace)) =
          delays (snd (retry_loop operation cfg (Suc attempt) (Some e)
            (trace @ [Waited (retryDelay cfg * (int attempt + 1))])))"
        using True less e sr by (subst retry_loop.simps) simp
      also have "\<dots> = delays (trace @ [Waited (retryDelay cfg * (int attempt + 1))]) @
          map (\<lambda>k. retryDelay cfg * (int k + 1)) [Suc attempt..<nat (retryAttempts cfg - 1)]"
        using "1.IH"(1) [OF True e _ less] sr "1.prems" by simp
      finally show ?thesis
        by (simp add: upt delays_append)
    next
      case last: False
      then have upt: "[attempt..<nat (retryAttempts cfg - 1)] = []"
        "[Suc attempt..<nat (retryAttempts cfg - 1)] = []" by simp_all
      have "delays (snd (retry_loop operation cfg attempt lastError trace)) =
          delays (snd (retry_loop operation cfg (Suc attempt) (Some e) trace))"
        using True last e sr by (subst retry_loop.simps) simp
      also have "\<dots> = delays trace @
          map (\<lambda>k. retryDelay cfg * (int k + 1)) [Suc attempt..<nat (retryAttempts cfg - 1)]"
        using "1.IH"(2) [OF True e _ last] sr "1.prems" by simp
      finally show ?thesis
        by (simp add: upt)
    qed
  qed
qed

lemma linear_delays_increase:
  "0 < (d::int) \<Longrightarrow> sorted_wrt (<) (map (\<lambda>k. d * (int k + 1)) [0..<n])"
  by (simp add: sorted_wrt_map sorted_wrt_iff_nth_less)

text \<open>
  C9, as amended. For an operation that fails in every attempt with an error that
  \<^verbatim>\<open>shouldRetry\<close> accepts, \<^verbatim>\<open>withRetry\<close> waits \<^verbatim>\<open>retryDelay * (attempt + 1)\<close> after the
  attempts 0 to \<^verbatim>\<open>retryAttempts - 2\<close> and does not wait after the last one: the delays
  grow linearly, by \<^verbatim>\<open>retryDelay\<close> each time, with no cap and no random part, and they
  increase strictly when \<^verbatim>\<open>retryDelay\<close> is positive.
\<close>

theorem withRetry_delays_linear:
  assumes "\<forall>k. \<exists>e. withTimeout (operation k) (timeoutMs (finalConfig config))
               ''retryableOperation'' = Inl e \<and> shouldRetry (finalConfig config) e"
  shows "delays (snd (withRetry operation config)) =
           map (\<lambda>k. retryDelay (finalConfig config) * (int k + 1))
             [0..<nat (retryAttempts (finalConfig config) - 1)] \<and>
         (0 < retryDelay (finalConfig config) \<longrightarrow>
            sorted_wrt (<) (delays (snd (withRetry operation config))))"
  using retry_loop_delays [OF assms, of 0 None "[]"] linear_delays_increase
  by (simp add: withRetry_def)

text \<open>Five attempts with the default delay of 1000 ms: four waits.\<close>

theorem withRetry_delays_linear_witness:
  "delays (snd (withRetry always_failing five_attempts)) = [1000, 2000, 3000, 4000] \<and>
   sorted_wrt (<) (delays (snd (withRetry always_failing five_attempts)))"
proof -
  have h: "\<forall>k. \<exists>e. withTimeout (always_failing k) (timeoutMs (finalConfig five_attempts))
               ''retryableOperation'' = Inl e \<and> shouldRetry (finalConfig five_attempts) e"
    by (simp add: always_failing_def finalConfig_def five_attempts_def defaultConfig_def)
  have n: "[0..<nat (retryAttempts (finalConfig five_attempts) - 1)] = [0, 1, 2, 3]"
    by (simp add: finalConfig_def five_attempts_def upt_rec)
  show ?thesis
    using withRetry_delays_linear [OF h]
    by (simp add: n) (simp add: finalConfig_def five_attempts_def defaultConfig_def)
qed

text \<open>
  The claim as stated fails: the third delay is 3000 ms, not \<^verbatim>\<open>1000 * 2 ^ 2\<close>, and it is no
  cap either, since the fourth delay is longer.
\<close>

theorem withRetry_not_exponential:
  "delays (snd (withRetry always_failing five_attempts)) = [1000, 2000, 3000, 4000] \<and>
   delays (snd (withRetry always_failing five_attempts)) ! 2 \<noteq> 1000 * 2 ^ 2 \<and>
   delays (snd (withRetry always_failing five_attempts)) ! 2
     < delays (snd (withRetry always_failing five_attempts)) ! 3"
proof -
  have "delays (snd (withRetry always_failing five_attempts)) = [1000, 2000, 3000, 4000]"
    by (simp add: withRetry_def always_failing_def finalConfig_def five_attempts_def
        defaultConfig_def give_up_def)
  then show ?thesis by simp
qed

section \<open>C10: getPendingMessages never rejects\<close>

text \<open>
  C10, as amended. \<^verbatim>\<open>getPendingMessages\<close> never rejects: in every world it returns a
  value. The value is the empty array when the read is rejected, when the key is
  absent, and when the stored text is empty or does not parse; it is the stored array
  when the stored text is the JSON text of an array. When the stored text is the JSON
  text of a value that is not an array, that value is returned as it is, so the result
  is not always an array.
\<close>

theorem getPendingMessages_never_rejects:
  "(\<exists>v. fst (getPendingMessages w) = Inr v) \<and>
   (fst (getItem_pendingMessages w) = Inl e \<longrightarrow> fst (getPendingMessages w) = Inr (Array [])) \<and>
   (fst (getItem_pendingMessages w) = Inr None \<longrightarrow> fst (getPendingMessages w) = Inr (Array [])) \<and>
   (fst (getItem_pendingMessages w) = Inr (Some Empty_text) \<longrightarrow>
      fst (getPendingMessages w) = Inr (Array [])) \<and>
   (fst (getItem_pendingMessages w) = Inr (Some Garbage) \<longrightarrow>
      fst (getPendingMessages w) = Inr (Array [])) \<and>
   (fst (getItem_pendingMessages w) = Inr (Some (Json ms)) \<longrightarrow>
      fst (getPendingMessages w) = Inr (Array ms)) \<and>
   (fst (getItem_pendingMessages w) = Inr (Some (Json_other x)) \<longrightarrow>
      fst (getPendingMessages w) = Inr (Non_array x))"
  by (simp add: getPendingMessages_def getItem_pendingMessages_def io_call_def
      split: list.splits bool.splits option.splits stored_text.splits)

text \<open>
  The cases at concrete worlds: a rejected read over a non-empty store, a fresh
  installation, a store holding the empty string, text that does not parse, an array,
  and \<^verbatim>\<open>null\<close>.
\<close>

theorem getPendingMessages_never_rejects_witness:
  "fst (getPendingMessages (one_pending\<lparr>io_faults := [True]\<rparr>)) = Inr (Array []) \<and>
   fst (getPendingMessages world0) = Inr (Array []) \<and>
   fst (getPendingMessages (world0\<lparr>pendingMessages := Some Empty_text\<rparr>)) = Inr (Array []) \<and>
   fst (getPendingMessages (world0\<lparr>pendingMessages := Some Garbage\<rparr>)) = Inr (Array []) \<and>
   fst (getPendingMessages (world0\<lparr>pendingMessages := Some (Json [m1])\<rparr>)) = Inr (Array [m1]) \<and>
   fst (getPendingMessages (world0\<lparr>pendingMessages := Some (Json_other Null)\<rparr>))
     = Inr (Non_array Null)"
proof -
  have a: "fst (getItem_pendingMessages (one_pending\<lparr>io_faults := [True]\<rparr>)) = Inl StorageError"
    by (simp add: getItem_pendingMessages_def io_call_def)
  have b: "fst (getItem_pendingMessages world0) = Inr None"
    by (simp add: getItem_pendingMessages_def io_call_def world0_def)
  have c: "fst (getItem_pendingMessages (world0\<lparr>pendingMessages := Some t\<rparr>)) = Inr (Some t)"
    for t
    by (simp add: getItem_pendingMessages_def io_call_def world0_def)
  show ?thesis
    using getPendingMessages_never_rejects
        [of "one_pending\<lparr>io_faults := [True]\<rparr>" StorageError "[]" Null]
      getPendingMessages_never_rejects [of world0 StorageError "[]" Null]
      getPendingMessages_never_rejects
        [of "world0\<lparr>pendingMessages := Some Empty_text\<rparr>" StorageError "[]" Null]
      getPendingMessages_never_rejects
        [of "world0\<lparr>pendingMessages := Some Garbage\<rparr>" StorageError "[]" Null]
      getPendingMessages_never_rejects
        [of "world0\<lparr>pendingMessages := Some (Json [m1])\<rparr>" StorageError "[m1]" Null]
      getPendingMessages_never_rejects
        [of "world0\<lparr>pendingMessages := Some (Json_other Null)\<rparr>" StorageError "[]" Null]
      a b c
    by simp
qed

text \<open>
  The claim as stated fails: with \<^verbatim>\<open>null\<close> stored under the key, the read succeeds,
  \<^verbatim>\<open>JSON.parse\<close> returns \<^verbatim>\<open>null\<close> without throwing, and \<^verbatim>\<open>getPendingMessages\<close> returns
  it: not a list.
\<close>

theorem getPendingMessages_returns_non_list:
  "fst (getPendingMessages (world0\<lparr>pendingMessages := Some (Json_other Null)\<rparr>))
     = Inr (Non_array Null) \<and>
   \<not> is_array (Non_array Null)"
  by (simp add: getPendingMessages_def getItem_pendingMessages_def io_call_def world0_def)

end
